theory Spec2Isabelle
  imports Main "HOL-Library.Char_ord" "HOL-Library.List_Lexorder" "HOL-Library.Multiset"
begin

section \<open>Score reel controller (\<^verbatim>\<open>mpf/devices/score_reel_controller.py\<close>)\<close>

text \<open>
  The controller is a Python object whose methods mutate its own fields and call methods of
  collaborators (score reel groups, the event system, the queue of a queue event, the game).
  The embedding passes one state record through every method. Exceptions that the source
  can raise are values of \<open>error\<close>; a method returns \<open>error + controller\<close> where it can
  raise and \<open>controller\<close> where it cannot.
\<close>

datatype error = IndexError | AttributeError

text \<open>
  A score reel group is an object of the machine configuration. The controller keeps
  references to such objects in its lists; a reference is modelled by the immutable part of
  the object: its name (the key of the device collection, hence unique) and its tags. The
  mutable part of a device (its assumed value, whether it is lit) lives in stores keyed by the
  name, so that every reference to one device sees the same value.
\<close>

record score_reel_group =
  name :: string
  tags :: "string list"

record player =
  index :: nat
  number :: nat
  score :: int

record game =
  player_list :: "player list"
  player :: player

text \<open>The handle of a queue event; \<open>wait\<close> and \<open>clear\<close> are its two methods.\<close>

type_synonym token = nat

text \<open>
  The commands the controller sends to its collaborators, in the order it sends them.
  \<open>Add_value n change target\<close> is \<^verbatim>\<open>add_value(value=change, target=target)\<close> on the group
  named \<open>n\<close>. Calls of \<^verbatim>\<open>debug_log\<close> have no effect on any state and are left out.
\<close>

datatype action =
    Wait token
  | Clear token
  | Set_value string int
  | Add_value string int int

text \<open>
  The first four fields are the attributes set by \<^verbatim>\<open>__init__\<close>. The others are what the
  controller reaches through \<^verbatim>\<open>self.machine\<close>: the device collection in configuration
  order, the game, the assumed value and the illumination of every device, the event names
  on which \<^verbatim>\<open>self._reset_next_group\<close> is subscribed, and the log of commands sent.
\<close>

record controller =
  active_scorereelgroup :: "score_reel_group option"
  player_to_scorereel_map :: "score_reel_group list"
  reset_queue :: "score_reel_group list"
  queue :: "token option"
  score_reel_groups :: "score_reel_group list"
  game :: game
  assumed_value_int :: "string \<Rightarrow> int"
  lit :: "string set"
  handlers :: "string list"
  trace :: "action list"

subsection \<open>Collaborators\<close>

text \<open>Python's \<^verbatim>\<open>str\<close> on a non-negative integer: decimal digits, no leading zero.\<close>

fun str :: "nat \<Rightarrow> string" where
  "str n = (if n < 10 then [''0123456789'' ! n] else str (n div 10) @ [''0123456789'' ! (n mod 10)])"

declare str.simps [simp del]

definition items_tagged :: "string \<Rightarrow> controller \<Rightarrow> score_reel_group list" where
  \<comment> \<open>Modelled from the spec: the device collection's \<^verbatim>\<open>items_tagged\<close> is not part of the
      source at hand; it is the search of the configured device groups for those carrying
      a tag, in configuration order.\<close>
  "items_tagged tag s = filter (\<lambda>g. tag \<in> set (tags g)) (score_reel_groups s)"

definition set_value :: "score_reel_group \<Rightarrow> int \<Rightarrow> controller \<Rightarrow> controller" where
  \<comment> \<open>Modelled from the spec: \<^verbatim>\<open>set_value(target)\<close> commands the device to reach an absolute
      quantity; the device confirms later, by an event. Only the command is recorded.\<close>
  "set_value g v s = s\<lparr>trace := trace s @ [Set_value (name g) v]\<rparr>"

definition add_value :: "score_reel_group \<Rightarrow> int \<Rightarrow> int \<Rightarrow> controller \<Rightarrow> controller" where
  \<comment> \<open>Modelled from the spec: \<^verbatim>\<open>add_value(delta, expected_total)\<close> commands an incremental
      change. Only the command is recorded.\<close>
  "add_value g change target s = s\<lparr>trace := trace s @ [Add_value (name g) change target]\<rparr>"

definition light :: "score_reel_group \<Rightarrow> controller \<Rightarrow> controller" where
  \<comment> \<open>Modelled from the spec: \<^verbatim>\<open>light()\<close> is an idempotent visual side effect.\<close>
  "light g s = s\<lparr>lit := insert (name g) (lit s)\<rparr>"

definition unlight :: "score_reel_group \<Rightarrow> controller \<Rightarrow> controller" where
  \<comment> \<open>Modelled from the spec: \<^verbatim>\<open>unlight()\<close> is an idempotent visual side effect.\<close>
  "unlight g s = s\<lparr>lit := lit s - {name g}\<rparr>"

definition wait :: "token \<Rightarrow> controller \<Rightarrow> controller" where
  \<comment> \<open>Modelled from the spec: \<^verbatim>\<open>wait()\<close> on the token of a queue event defers its release.\<close>
  "wait q s = s\<lparr>trace := trace s @ [Wait q]\<rparr>"

definition clear :: "token \<Rightarrow> controller \<Rightarrow> controller" where
  \<comment> \<open>Modelled from the spec: \<^verbatim>\<open>clear()\<close> on the token of a queue event permits its release.\<close>
  "clear q s = s\<lparr>trace := trace s @ [Clear q]\<rparr>"

definition add_handler :: "string \<Rightarrow> controller \<Rightarrow> controller" where
  \<comment> \<open>Modelled from the spec: \<^verbatim>\<open>subscribe(topic, handler)\<close> of the event dispatch, for the
      one handler the controller subscribes after its construction,
      \<^verbatim>\<open>self._reset_next_group\<close>.\<close>
  "add_handler event s = s\<lparr>handlers := handlers s @ [event]\<rparr>"

definition remove_handler :: "controller \<Rightarrow> controller" where
  \<comment> \<open>Modelled from the spec: \<^verbatim>\<open>unsubscribe(handler)\<close> of the event dispatch, for
      \<^verbatim>\<open>self._reset_next_group\<close>: it removes every subscription of that handler.\<close>
  "remove_handler s = s\<lparr>handlers := []\<rparr>"

definition valid_event :: "string \<Rightarrow> string" where
  "valid_event n = ''scorereelgroup_'' @ n @ ''_valid''"

subsection \<open>The methods of the controller\<close>

text \<open>
  \<^verbatim>\<open>__init__\<close>, on a machine with the given device collection, game and assumed values. Its
  three calls of \<^verbatim>\<open>add_handler\<close> subscribe \<open>rotate_player\<close>, \<open>score_change\<close> and
  \<open>game_starting\<close> to \<^verbatim>\<open>player_turn_started\<close>, \<^verbatim>\<open>player_score\<close> and \<^verbatim>\<open>game_starting\<close>
  for the life of the controller; the field \<open>handlers\<close> holds only the subscriptions that come
  and go, those of \<^verbatim>\<open>_reset_next_group\<close>.
\<close>

definition init :: "score_reel_group list \<Rightarrow> game \<Rightarrow> (string \<Rightarrow> int) \<Rightarrow> controller" where
  "init groups g av =
     \<lparr>active_scorereelgroup = None, player_to_scorereel_map = [], reset_queue = [],
      queue = None, score_reel_groups = groups, game = g, assumed_value_int = av,
      lit = {}, handlers = [], trace = []\<rparr>"

text \<open>
  \<^verbatim>\<open>map_new_score_reel_group(self)\<close>. The loop over the tagged groups returns in its first
  iteration, so only the first tagged group counts. Without a tagged group,
  \<^verbatim>\<open>self.player_to_scorereel_map[0]\<close> raises IndexError on an empty map.
\<close>

definition map_new_score_reel_group :: "controller \<Rightarrow> error + controller" where
  "map_new_score_reel_group s =
     (case items_tagged (''player'' @ str (number (player (game s)))) s of
        reel_group # _ \<Rightarrow>
          Inr (s\<lparr>player_to_scorereel_map := player_to_scorereel_map s @ [reel_group]\<rparr>)
      | [] \<Rightarrow>
          (case player_to_scorereel_map s of
             [] \<Rightarrow> Inl IndexError
           | first # _ \<Rightarrow>
               Inr (s\<lparr>player_to_scorereel_map := player_to_scorereel_map s @ [first]\<rparr>)))"

text \<open>
  \<^verbatim>\<open>rotate_player(self, **kwargs)\<close>. The subscript
  \<^verbatim>\<open>self.player_to_scorereel_map[self.machine.game.player.index]\<close> raises IndexError when
  the map has no entry at the index. The loop sends \<^verbatim>\<open>unlight()\<close> to every group of the
  device collection before the active group is lit.
\<close>

definition rotate_player :: "controller \<Rightarrow> error + controller" where
  "rotate_player s =
     (case (if length (player_to_scorereel_map s) < length (player_list (game s))
            then map_new_score_reel_group s else Inr s) of
        Inl e \<Rightarrow> Inl e
      | Inr s1 \<Rightarrow>
          if index (player (game s1)) < length (player_to_scorereel_map s1) then
            let g = player_to_scorereel_map s1 ! index (player (game s1));
                s2 = s1\<lparr>active_scorereelgroup := Some g\<rparr>;
                s3 = (if assumed_value_int s2 (name g) \<noteq> score (player (game s2))
                      then set_value g (score (player (game s2))) s2 else s2);
                s4 = fold unlight (score_reel_groups s3) s3
            in Inr (light g s4)
          else Inl IndexError)"

text \<open>
  \<^verbatim>\<open>score_change(self, value, change, **kwargs)\<close>. The condition is Python's truth of
  \<^verbatim>\<open>self.active_scorereelgroup and change\<close>: the pointer is not None and the change is
  not 0.
\<close>

definition score_change :: "int \<Rightarrow> int \<Rightarrow> controller \<Rightarrow> controller" where
  "score_change val change s =
     (case active_scorereelgroup s of
        None \<Rightarrow> s
      | Some g \<Rightarrow> if change \<noteq> 0 then add_value g change val s else s)"

text \<open>
  \<^verbatim>\<open>_reset_next_group(self, value=0, **kwargs)\<close>. In the last branch \<^verbatim>\<open>self.queue.clear()\<close>
  raises AttributeError when \<^verbatim>\<open>self.queue\<close> is None.
\<close>

definition reset_next_group :: "int \<Rightarrow> controller \<Rightarrow> error + controller" where
  "reset_next_group val s =
     (case reset_queue s of
        next_group # rest \<Rightarrow>
          Inr (set_value next_group val
                (add_handler (valid_event (name next_group)) (s\<lparr>reset_queue := rest\<rparr>)))
      | [] \<Rightarrow>
          (case queue s of
             None \<Rightarrow> Inl AttributeError
           | Some q \<Rightarrow> Inr (remove_handler ((clear q s)\<lparr>queue := None\<rparr>))))"

text \<open>
  \<^verbatim>\<open>game_starting(self, queue, game, **kwargs)\<close>. The loop appends every group of the device
  collection to the emptied reset queue; \<^verbatim>\<open>sort(key=lambda x: x.name)\<close> is a stable sort on
  the names, which Python compares code point by code point, as the lexicographic order on
  \<open>string\<close> compares them byte by byte.
\<close>

definition game_starting :: "token \<Rightarrow> controller \<Rightarrow> error + controller" where
  "game_starting q s =
     (let s1 = wait q (s\<lparr>queue := Some q\<rparr>);
          s2 = s1\<lparr>reset_queue := []\<rparr>;
          s3 = fold (\<lambda>score_reel_group t. t\<lparr>reset_queue := reset_queue t @ [score_reel_group]\<rparr>)
                 (score_reel_groups s2) s2;
          s4 = s3\<lparr>reset_queue := sort_key name (reset_queue s3)\<rparr>
      in reset_next_group 0 s4)"

subsection \<open>Delivery of confirmation events\<close>

text \<open>
  A score reel group that has reached its value posts the event
  \<^verbatim>\<open>scorereelgroup_<name>_valid\<close> with that value; the dispatch calls every handler
  subscribed to the event when the event is delivered.
\<close>

fun run_handlers :: "nat \<Rightarrow> int \<Rightarrow> controller \<Rightarrow> error + controller" where
  "run_handlers 0 v s = Inr s"
| "run_handlers (Suc k) v s =
     (case reset_next_group v s of Inl e \<Rightarrow> Inl e | Inr s' \<Rightarrow> run_handlers k v s')"

definition post_valid :: "string \<Rightarrow> int \<Rightarrow> controller \<Rightarrow> error + controller" where
  \<comment> \<open>Modelled from the spec: \<^verbatim>\<open>publish(topic, payload)\<close> of the event dispatch, for the
      confirmation of the group named \<open>n\<close>: one call of the handler for each subscription
      to the topic that exists when the event is delivered.\<close>
  "post_valid n v s =
     run_handlers (length (filter (\<lambda>e. e = valid_event n) (handlers s))) v s"

fun confirmations :: "(string \<times> int) list \<Rightarrow> controller \<Rightarrow> error + controller" where
  "confirmations [] s = Inr s"
| "confirmations ((n, v) # cs) s =
     (case post_valid n v s of Inl e \<Rightarrow> Inl e | Inr s' \<Rightarrow> confirmations cs s')"

definition run_cycle :: "token \<Rightarrow> (string \<times> int) list \<Rightarrow> controller \<Rightarrow> error + controller" where
  \<comment> \<open>A game-starting notification followed by the delivery of confirmation events.\<close>
  "run_cycle q cs s =
     (case game_starting q s of Inl e \<Rightarrow> Inl e | Inr s1 \<Rightarrow> confirmations cs s1)"

text \<open>
  The state of a reset cycle that began in \<open>s\<close> with token \<open>q\<close>, after \<open>k\<close> groups have
  confirmed: the groups up to position \<open>k\<close> of the sorted list have been commanded, the others
  wait in the queue; once the last group has confirmed, the token is cleared and released.
\<close>

definition cycle_state :: "token \<Rightarrow> nat \<Rightarrow> controller \<Rightarrow> controller" where
  "cycle_state q k s =
     (let gs = sort_key name (score_reel_groups s) in
      if k < length gs then
        s\<lparr>queue := Some q, reset_queue := drop (Suc k) gs,
          handlers := map (\<lambda>g. valid_event (name g)) (take (Suc k) gs),
          trace := trace s @ [Wait q] @ map (\<lambda>g. Set_value (name g) 0) (take (Suc k) gs)\<rparr>
      else
        s\<lparr>queue := None, reset_queue := [], handlers := [],
          trace := trace s @ [Wait q] @ map (\<lambda>g. Set_value (name g) 0) gs @ [Clear q]\<rparr>)"

text \<open>
  The same for confirmations that carry any values: \<open>vs\<close> lists the values carried by the
  confirmations delivered so far, in the order of the sorted groups. The first command is sent
  with 0, each later one with the value of the confirmation that triggered it.
\<close>

definition cycle_payloads :: "token \<Rightarrow> int list \<Rightarrow> controller \<Rightarrow> controller" where
  "cycle_payloads q vs s =
     (let gs = sort_key name (score_reel_groups s) in
      if length vs < length gs then
        s\<lparr>queue := Some q, reset_queue := drop (Suc (length vs)) gs,
          handlers := map (\<lambda>g. valid_event (name g)) (take (Suc (length vs)) gs),
          trace := trace s @ [Wait q] @ map (\<lambda>(g, v). Set_value (name g) v) (zip gs (0 # vs))\<rparr>
      else
        s\<lparr>queue := None, reset_queue := [], handlers := [],
          trace := trace s @ [Wait q] @ map (\<lambda>(g, v). Set_value (name g) v) (zip gs (0 # vs))
                     @ [Clear q]\<rparr>)"

subsection \<open>Turns\<close>

text \<open>
  The game session, which is outside the controller, sets the player list and the current
  player and then posts \<^verbatim>\<open>player_turn_started\<close>, whose handler is \<open>rotate_player\<close>.
  \<open>turns\<close> runs one such notification for each game snapshot of a list.
\<close>

fun turns :: "game list \<Rightarrow> controller \<Rightarrow> error + controller" where
  "turns [] s = Inr s"
| "turns (g # gs) s =
     (case rotate_player (s\<lparr>game := g\<rparr>) of Inl e \<Rightarrow> Inl e | Inr s' \<Rightarrow> turns gs s')"

text \<open>
  Players taking their first turns in index order: the snapshots of a list have the current
  player's index \<open>m\<close>, \<open>m + 1\<close>, ... and each player list holds the current player.
\<close>

fun first_turns_from :: "nat \<Rightarrow> game list \<Rightarrow> bool" where
  "first_turns_from m [] = True"
| "first_turns_from m (g # gs) =
     (index (player g) = m \<and> m < length (player_list g) \<and> first_turns_from (Suc m) gs)"

section \<open>Ball device on the smart virtual platform\<close>

text \<open>
  The test \<^verbatim>\<open>mpf/tests/test_BallDevice_SmartVirtual.py\<close> drives a trough through the
  machine's public interface; the ball device and the platform themselves are not among the
  sources at hand. Time is counted in whole ticks.
\<close>

record ball_device =
  balls :: int
  available_balls :: int
  eject_requests :: "nat list"

definition empty_trough :: ball_device where
  "empty_trough = \<lparr>balls = 0, available_balls = 0, eject_requests = []\<rparr>"

definition switch_hit :: "ball_device \<Rightarrow> ball_device" where
  \<comment> \<open>Modelled from the spec: the ball device is missing; a switch-hit notification reports
      one more ball present, which is available.\<close>
  "switch_hit d = d\<lparr>balls := balls d + 1, available_balls := available_balls d + 1\<rparr>"

definition eject :: "nat \<Rightarrow> ball_device \<Rightarrow> ball_device option" where
  \<comment> \<open>Modelled from the spec: the ball device is missing; an eject request immediately
      decrements \<open>available_balls\<close> (reserving the ball) and leaves \<open>balls\<close> unchanged; the request
      stays pending for the transit delay. The spec says nothing of an eject with no
      available ball: that is \<open>None\<close>.\<close>
  "eject delay d =
     (if 0 < available_balls d
      then Some (d\<lparr>available_balls := available_balls d - 1,
                   eject_requests := eject_requests d @ [delay]\<rparr>)
      else None)"

definition advance_time :: "nat \<Rightarrow> ball_device \<Rightarrow> ball_device" where
  \<comment> \<open>Modelled from the spec: the virtual timing simulator is missing; when the transit delay
      of a pending eject has elapsed, \<open>balls\<close> decrements too.\<close>
  "advance_time t d =
     d\<lparr>balls := balls d - int (length (filter (\<lambda>r. r \<le> t) (eject_requests d))),
       eject_requests := map (\<lambda>r. r - t) (filter (\<lambda>r. t < r) (eject_requests d))\<rparr>"

definition ball_inv :: "ball_device \<Rightarrow> bool" where
  "ball_inv d \<longleftrightarrow>
     0 \<le> available_balls d \<and> available_balls d + int (length (eject_requests d)) = balls d"

section \<open>Sample machines\<close>

definition group_a :: score_reel_group where
  "group_a = \<lparr>name = ''a'', tags = [''player1'']\<rparr>"

definition group_b :: score_reel_group where
  "group_b = \<lparr>name = ''b'', tags = [''player2'']\<rparr>"

definition group_c :: score_reel_group where
  "group_c = \<lparr>name = ''c'', tags = []\<rparr>"

definition player_1 :: player where
  "player_1 = \<lparr>index = 0, number = 1, score = 0\<rparr>"

definition player_2 :: player where
  "player_2 = \<lparr>index = 1, number = 2, score = 0\<rparr>"

definition player_3 :: player where
  "player_3 = \<lparr>index = 2, number = 3, score = 0\<rparr>"

definition no_scores :: "string \<Rightarrow> int" where
  "no_scores n = 0"

definition one_player :: game where
  "one_player = \<lparr>player_list = [player_1], player = player_1\<rparr>"

definition two_players :: "player \<Rightarrow> game" where
  "two_players p = \<lparr>player_list = [player_1, player_2], player = p\<rparr>"

text \<open>A machine with three groups, configured in the order c, a, b, before the first turn.\<close>

definition machine_cab :: controller where
  "machine_cab = init [group_c, group_a, group_b] one_player no_scores"

text \<open>A machine whose groups carry no tag for the first player.\<close>

definition machine_untagged :: controller where
  "machine_untagged = init [group_b, group_c] one_player no_scores"

text \<open>The first player's turn has started on \<open>machine_cab\<close>; the reels show 0, the score is 120.\<close>

definition machine_playing :: controller where
  "machine_playing =
     machine_cab\<lparr>active_scorereelgroup := Some group_a, player_to_scorereel_map := [group_a],
       game := \<lparr>player_list = [player_1], player = player_1\<lparr>score := 120\<rparr>\<rparr>,
       lit := {''a''}\<rparr>"

lemmas sample_defs =
  group_a_def group_b_def group_c_def player_1_def player_2_def player_3_def no_scores_def
  one_player_def two_players_def machine_cab_def machine_untagged_def machine_playing_def init_def

lemmas op_defs =
  set_value_def add_value_def light_def unlight_def wait_def clear_def add_handler_def
  remove_handler_def

section \<open>Properties of the reset cycle\<close>

lemma fold_append_queue:
  "fold (\<lambda>g t. t\<lparr>reset_queue := reset_queue t @ [g]\<rparr>) xs t = t\<lparr>reset_queue := reset_queue t @ xs\<rparr>"
  by (induction xs arbitrary: t) simp_all

lemma game_starting_eq:
  "game_starting q s = reset_next_group 0
     (s\<lparr>queue := Some q, trace := trace s @ [Wait q], reset_queue := sort_key name (score_reel_groups s)\<rparr>)"
  by (simp add: game_starting_def Let_def fold_append_queue wait_def)

lemma valid_event_inj [simp]: "valid_event n = valid_event m \<longleftrightarrow> n = m"
  by (simp add: valid_event_def)

lemma zip_snoc_short:
  "length ys < length xs \<Longrightarrow> zip xs (ys @ [y]) = zip xs ys @ [(xs ! length ys, y)]"
proof (induction xs arbitrary: ys)
  case Nil
  then show ?case by simp
next
  case (Cons x xs)
  then show ?case by (cases ys) simp_all
qed

lemma zip_snoc_full:
  "length xs \<le> length ys \<Longrightarrow> zip xs (ys @ zs) = zip xs ys"
proof (induction xs arbitrary: ys)
  case Nil
  then show ?case by simp
next
  case (Cons x xs)
  then show ?case by (cases ys) simp_all
qed

lemma zip_replicate_const:
  "zip xs (replicate n c) = map (\<lambda>x. (x, c)) (take n xs)"
proof (induction xs arbitrary: n)
  case Nil
  then show ?case by simp
next
  case (Cons x xs)
  then show ?case by (cases n) simp_all
qed

lemma game_starting_cycle_payloads:
  "handlers s = [] \<Longrightarrow> game_starting q s = Inr (cycle_payloads q [] s)"
  by (cases "sort_key name (score_reel_groups s)")
     (simp_all add: game_starting_eq reset_next_group_def op_defs cycle_payloads_def)

lemma count_one_distinct:
  "distinct ys \<Longrightarrow> y \<in> set ys \<Longrightarrow> length (filter (\<lambda>e. e = y) ys) = 1"
  by (induction ys) (auto simp: filter_empty_conv)

lemma count_take_distinct:
  assumes "distinct (map f xs)" "k < length xs"
  shows "length (filter (\<lambda>e. e = f (xs ! k)) (map f (take (Suc k) xs))) = 1"
proof (rule count_one_distinct)
  show "distinct (map f (take (Suc k) xs))"
    using assms(1) by (simp add: distinct_take flip: take_map)
  show "f (xs ! k) \<in> set (map f (take (Suc k) xs))"
    using assms(2) by (simp add: take_Suc_conv_app_nth)
qed

lemma distinct_names_sorted:
  "distinct (map name xs) \<Longrightarrow> distinct (map name (sort_key name xs))"
proof -
  assume "distinct (map name xs)"
  moreover have "mset (map name (sort_key name xs)) = mset (map name xs)"
    by simp
  ultimately show ?thesis
    using mset_eq_imp_distinct_iff by blast
qed

lemma run_handlers_once: "run_handlers (Suc 0) v s = reset_next_group v s"
  by (simp split: sum.splits)

lemma post_valid_cycle_payloads:
  assumes "handlers s = []" "distinct (map name (score_reel_groups s))"
    and "length vs < length (score_reel_groups s)"
  shows "post_valid (name (sort_key name (score_reel_groups s) ! length vs)) v (cycle_payloads q vs s)
         = Inr (cycle_payloads q (vs @ [v]) s)"
proof -
  let ?gs = "sort_key name (score_reel_groups s)"
  let ?k = "length vs"
  have d: "distinct (map (\<lambda>g. valid_event (name g)) ?gs)"
    using distinct_names_sorted [OF assms(2)] by (simp add: distinct_map inj_on_def)
  have k: "?k < length ?gs" using assms(3) by simp
  have h: "handlers (cycle_payloads q vs s) = map (\<lambda>g. valid_event (name g)) (take (Suc ?k) ?gs)"
    using k by (simp add: cycle_payloads_def Let_def)
  have "post_valid (name (?gs ! ?k)) v (cycle_payloads q vs s) = reset_next_group v (cycle_payloads q vs s)"
    unfolding post_valid_def h count_take_distinct [OF d k] One_nat_def
    by (rule run_handlers_once)
  also have "\<dots> = Inr (cycle_payloads q (vs @ [v]) s)"
  proof (cases "Suc ?k < length ?gs")
    case True
    then have "drop (Suc ?k) ?gs = ?gs ! Suc ?k # drop (Suc (Suc ?k)) ?gs"
      by (simp add: Cons_nth_drop_Suc)
    moreover from True have "zip ?gs ((0 # vs) @ [v]) = zip ?gs (0 # vs) @ [(?gs ! length (0 # vs), v)]"
      by (intro zip_snoc_short) simp
    ultimately show ?thesis using True k
      by (simp add: cycle_payloads_def Let_def reset_next_group_def op_defs
            take_Suc_conv_app_nth [of "Suc ?k"])
  next
    case False
    with k have "Suc ?k = length ?gs" by simp
    moreover from this have "zip ?gs ((0 # vs) @ [v]) = zip ?gs (0 # vs)"
      by (intro zip_snoc_full) simp
    ultimately show ?thesis using k
      by (simp add: cycle_payloads_def Let_def reset_next_group_def op_defs)
  qed
  finally show ?thesis .
qed

lemma confirmations_cycle_payloads:
  assumes "handlers s = []" "distinct (map name (score_reel_groups s))"
  shows "length vs + length ws \<le> length (score_reel_groups s) \<Longrightarrow>
         confirmations (zip (map name (drop (length vs) (sort_key name (score_reel_groups s)))) ws)
           (cycle_payloads q vs s) = Inr (cycle_payloads q (vs @ ws) s)"
proof (induction ws arbitrary: vs)
  case Nil
  show ?case by simp
next
  case (Cons w ws)
  let ?gs = "sort_key name (score_reel_groups s)"
  from Cons.prems have k: "length vs < length ?gs" by simp
  then have "drop (length vs) ?gs = ?gs ! length vs # drop (Suc (length vs)) ?gs"
    by (simp add: Cons_nth_drop_Suc)
  moreover have "post_valid (name (?gs ! length vs)) w (cycle_payloads q vs s)
                 = Inr (cycle_payloads q (vs @ [w]) s)"
    using post_valid_cycle_payloads [OF assms] k by simp
  moreover have "confirmations (zip (map name (drop (length (vs @ [w])) ?gs)) ws)
           (cycle_payloads q (vs @ [w]) s) = Inr (cycle_payloads q ((vs @ [w]) @ ws) s)"
    using Cons.prems by (intro Cons.IH) simp
  ultimately show ?case by simp
qed

text \<open>
  Claim C1, as stated, fails. Each group confirming once, with the value 7: only the first
  command targets 0, the others target 7. And on a controller that is not idle (the cycle of
  token 1 has commanded a and left its observer subscribed), the cycle of token 2 commands b
  and c together on the confirmation of a and clears its token after the second of the three
  confirmations.
\<close>

theorem reset_cycle_payload_forwarded:
  "map_sum id trace (run_cycle 1 [(''a'', 7), (''b'', 7), (''c'', 7)] machine_cab) =
     Inr [Wait 1, Set_value ''a'' 0, Set_value ''b'' 7, Set_value ''c'' 7, Clear 1] \<and>
   game_starting 1 machine_cab = Inr (cycle_state 1 0 machine_cab) \<and>
   handlers (cycle_state 1 0 machine_cab) = [valid_event ''a''] \<and>
   map_sum id trace (run_cycle 2 [(''a'', 0), (''b'', 0)] (cycle_state 1 0 machine_cab)) =
     Inr [Wait 1, Set_value ''a'' 0, Wait 2, Set_value ''a'' 0, Set_value ''b'' 0,
          Set_value ''c'' 0, Clear 2]"
  by (simp add: run_cycle_def game_starting_eq cycle_state_def sample_defs reset_next_group_def
        op_defs post_valid_def)


text \<open>
  Claim C1, amended. A reset cycle started by \<open>game_starting\<close> on a controller with no
  confirmation observer subscribed, over the configured groups, whose names are distinct, each
  group confirming once after it was commanded: the controller calls \<open>wait\<close> on the token
  before any command; after the confirmations carrying the values \<open>vs\<close> it has sent one
  \<open>set_value\<close> to each of the first \<open>length vs + 1\<close> groups of the list sorted by name (to all
  \<open>M\<close> groups once all have confirmed), in that order, the first with 0 and each later one
  with the value carried by the confirmation of the group before it, hence all with 0 when
  every confirmation carries 0; the list is a permutation of the configured groups in
  ascending order of name; \<open>clear\<close> is called once, after the confirmation of the last group,
  and the token is released then.
\<close>

theorem reset_cycle:
  assumes "handlers s = []" and "distinct (map name (score_reel_groups s))"
    and "gs = sort_key name (score_reel_groups s)" and "length vs \<le> length gs"
  shows "\<exists>s'. run_cycle q (zip (map name gs) vs) s = Inr s' \<and>
           trace s' = trace s @ [Wait q] @ map (\<lambda>(g, v). Set_value (name g) v) (zip gs (0 # vs))
                        @ (if length vs = length gs then [Clear q] else []) \<and>
           queue s' = (if length vs = length gs then None else Some q) \<and>
           map fst (zip gs (0 # vs)) = take (Suc (length vs)) gs \<and>
           (set vs \<subseteq> {0} \<longrightarrow>
              map (\<lambda>(g, v). Set_value (name g) v) (zip gs (0 # vs)) =
              map (\<lambda>g. Set_value (name g) 0) (take (Suc (length vs)) gs)) \<and>
           sorted (map name gs) \<and> mset gs = mset (score_reel_groups s) \<and>
           distinct (map name gs)"
proof -
  from assms(3,4) have k: "length vs \<le> length (score_reel_groups s)" by simp
  have "run_cycle q (zip (map name gs) vs) s = Inr (cycle_payloads q vs s)"
    using confirmations_cycle_payloads [OF assms(1,2), of "[]" vs q] k
    by (simp add: run_cycle_def game_starting_cycle_payloads [OF assms(1)] assms(3))
  moreover have "trace (cycle_payloads q vs s) =
      trace s @ [Wait q] @ map (\<lambda>(g, v). Set_value (name g) v) (zip gs (0 # vs))
        @ (if length vs = length gs then [Clear q] else [])"
    using k by (simp add: cycle_payloads_def Let_def assms(3))
  moreover have "queue (cycle_payloads q vs s) = (if length vs = length gs then None else Some q)"
    using k by (simp add: cycle_payloads_def Let_def assms(3))
  moreover have "map fst (zip gs (0 # vs)) = take (Suc (length vs)) gs"
    using assms(4) by (simp add: map_fst_zip_take min_def del: zip_Cons_Cons)
  moreover have "set vs \<subseteq> {0} \<longrightarrow>
              map (\<lambda>(g, v). Set_value (name g) v) (zip gs (0 # vs)) =
              map (\<lambda>g. Set_value (name g) 0) (take (Suc (length vs)) gs)"
  proof
    assume "set vs \<subseteq> {0}"
    then have "vs = replicate (length vs) 0"
      by (intro replicate_eqI) auto
    then have "0 # vs = replicate (Suc (length vs)) 0" by simp
    then show "map (\<lambda>(g, v). Set_value (name g) v) (zip gs (0 # vs)) =
              map (\<lambda>g. Set_value (name g) 0) (take (Suc (length vs)) gs)"
      by (simp only: zip_replicate_const) simp
  qed
  moreover have "sorted (map name gs)" by (simp add: assms(3))
  moreover have "mset gs = mset (score_reel_groups s)" by (simp add: assms(3))
  moreover have "distinct (map name gs)"
    using distinct_names_sorted [OF assms(2)] by (simp add: assms(3))
  ultimately show ?thesis by blast
qed

theorem reset_cycle_witness:
  "handlers machine_cab = [] \<and> distinct (map name (score_reel_groups machine_cab)) \<and>
   [group_a, group_b, group_c] = sort_key name (score_reel_groups machine_cab) \<and>
   length [0, 0, 0 :: int] \<le> length [group_a, group_b, group_c] \<and>
   set [0, 0, 0 :: int] \<subseteq> {0} \<and>
   (\<exists>s'. run_cycle 1 [(''a'', 0), (''b'', 0), (''c'', 0)] machine_cab = Inr s' \<and>
      trace s' = [Wait 1, Set_value ''a'' 0, Set_value ''b'' 0, Set_value ''c'' 0, Clear 1] \<and>
      queue s' = None)"
proof -
  have h: "handlers machine_cab = []" by (simp add: sample_defs)
  have d: "distinct (map name (score_reel_groups machine_cab))" by (simp add: sample_defs)
  have g: "[group_a, group_b, group_c] = sort_key name (score_reel_groups machine_cab)"
    by (simp add: sample_defs)
  have k: "length [0, 0, 0 :: int] \<le> length [group_a, group_b, group_c]" by simp
  have z: "set [0, 0, 0 :: int] \<subseteq> {0}" by simp
  have t: "trace machine_cab = []" by (simp add: sample_defs)
  have n: "name group_a = ''a''" "name group_b = ''b''" "name group_c = ''c''"
    by (simp_all add: sample_defs)
  from reset_cycle [OF h d g k, of 1]
  have "\<exists>s'. run_cycle 1 [(''a'', 0), (''b'', 0), (''c'', 0)] machine_cab = Inr s' \<and>
      trace s' = [Wait 1, Set_value ''a'' 0, Set_value ''b'' 0, Set_value ''c'' 0, Clear 1] \<and>
      queue s' = None"
    by (simp add: t n) blast
  with h d g k z show ?thesis by blast
qed

text \<open>
  Claim C10. Only the first command of a cycle is sent with the constant 0, by
  \<open>game_starting\<close>. The handler commands the next group of the queue to the value it is
  called with, and the delivery of a confirmation calls it with the value the event carries:
  a confirmation carrying 7 has the next group commanded to 7.
\<close>

theorem reset_target_from_payload:
  "(reset_queue s = g # rest \<longrightarrow>
      reset_next_group v s =
        Inr (s\<lparr>reset_queue := rest, handlers := handlers s @ [valid_event (name g)],
               trace := trace s @ [Set_value (name g) v]\<rparr>)) \<and>
   (reset_queue s = g # rest \<and> length (filter (\<lambda>e. e = valid_event n) (handlers s)) = 1 \<longrightarrow>
      post_valid n v s = reset_next_group v s) \<and>
   (sort_key name (score_reel_groups s) = g # rest \<longrightarrow>
      (\<exists>s'. game_starting q s = Inr s' \<and> trace s' = trace s @ [Wait q, Set_value (name g) 0]))"
  by (simp add: reset_next_group_def op_defs post_valid_def game_starting_eq split: sum.splits)

theorem reset_target_from_payload_witness:
  "reset_queue (cycle_state 5 0 machine_cab) = group_b # [group_c] \<and>
   length (filter (\<lambda>e. e = valid_event ''a'') (handlers (cycle_state 5 0 machine_cab))) = 1 \<and>
   sort_key name (score_reel_groups machine_cab) = group_a # [group_b, group_c] \<and>
   post_valid ''a'' 7 (cycle_state 5 0 machine_cab) =
     Inr ((cycle_state 5 0 machine_cab)\<lparr>reset_queue := [group_c],
            handlers := [valid_event ''a'', valid_event ''b''],
            trace := [Wait 5, Set_value ''a'' 0, Set_value ''b'' 7]\<rparr>) \<and>
   (\<exists>s'. game_starting 5 machine_cab = Inr s' \<and> trace s' = [Wait 5, Set_value ''a'' 0])"
proof -
  have a: "reset_queue (cycle_state 5 0 machine_cab) = group_b # [group_c]"
    by (simp add: cycle_state_def sample_defs)
  have b: "length (filter (\<lambda>e. e = valid_event ''a'') (handlers (cycle_state 5 0 machine_cab))) = 1"
    by (simp add: cycle_state_def sample_defs)
  have c: "sort_key name (score_reel_groups machine_cab) = group_a # [group_b, group_c]"
    by (simp add: sample_defs)
  have h: "handlers (cycle_state 5 0 machine_cab) = [valid_event ''a'']"
    "trace (cycle_state 5 0 machine_cab) = [Wait 5, Set_value ''a'' 0]"
    "trace machine_cab = []" "name group_a = ''a''" "name group_b = ''b''"
    by (simp_all add: cycle_state_def sample_defs)
  from reset_target_from_payload [of "cycle_state 5 0 machine_cab" group_b "[group_c]" 7 "''a''"] a b
  have "post_valid ''a'' 7 (cycle_state 5 0 machine_cab) =
     Inr ((cycle_state 5 0 machine_cab)\<lparr>reset_queue := [group_c],
            handlers := [valid_event ''a'', valid_event ''b''],
            trace := [Wait 5, Set_value ''a'' 0, Set_value ''b'' 7]\<rparr>)"
    by (simp add: h)
  moreover from reset_target_from_payload [of machine_cab group_a "[group_b, group_c]" _ _ 5] c
  have "\<exists>s'. game_starting 5 machine_cab = Inr s' \<and> trace s' = [Wait 5, Set_value ''a'' 0]"
    by (simp add: h)
  ultimately show ?thesis using a b c by blast
qed




text \<open>
  Claim C5, as stated, fails: there is no reentrancy guard. While the cycle of token 1 is in
  flight (a commanded, b and c queued), a game-starting notification with token 2 replaces
  the held token, without clearing it, and commands a again.
\<close>

theorem game_starting_in_flight:
  "game_starting 1 machine_cab = Inr (cycle_state 1 0 machine_cab) \<and>
   queue (cycle_state 1 0 machine_cab) = Some 1 \<and>
   reset_queue (cycle_state 1 0 machine_cab) = [group_b, group_c] \<and>
   trace (cycle_state 1 0 machine_cab) = [Wait 1, Set_value ''a'' 0] \<and>
   map_sum id queue (game_starting 2 (cycle_state 1 0 machine_cab)) = Inr (Some 2) \<and>
   map_sum id trace (game_starting 2 (cycle_state 1 0 machine_cab)) =
     Inr [Wait 1, Set_value ''a'' 0, Wait 2, Set_value ''a'' 0]"
  by (simp add: game_starting_eq cycle_state_def sample_defs reset_next_group_def op_defs)

text \<open>
  Claim C5, amended. In every state, in flight or idle, a game-starting notification stores
  the new token in place of any held one, calls \<open>wait\<close> on it, rebuilds the reset queue from
  all configured groups sorted by name and commands the first of them to 0 (with no group
  configured it clears the new token at once). A token held before is not cleared.
\<close>

theorem game_starting_unguarded:
  "\<exists>s'. game_starting q s = Inr s' \<and>
     queue s' = (if score_reel_groups s = [] then None else Some q) \<and>
     reset_queue s' = tl (sort_key name (score_reel_groups s)) \<and>
     trace s' = trace s @ Wait q #
       (case sort_key name (score_reel_groups s) of
          [] \<Rightarrow> [Clear q] | g # _ \<Rightarrow> [Set_value (name g) 0])"
proof (cases "sort_key name (score_reel_groups s)")
  case Nil
  then have "score_reel_groups s = []" by (metis length_sort length_0_conv)
  with Nil show ?thesis
    by (simp add: game_starting_eq reset_next_group_def op_defs)
next
  case (Cons g rest)
  then have "score_reel_groups s \<noteq> []" by auto
  with Cons show ?thesis
    by (simp add: game_starting_eq reset_next_group_def op_defs)
qed

theorem game_starting_unguarded_witness:
  "\<exists>s'. game_starting 2 (cycle_state 5 1 machine_cab) = Inr s' \<and>
     queue s' = Some 2 \<and> reset_queue s' = [group_b, group_c] \<and>
     trace s' = [Wait 5, Set_value ''a'' 0, Set_value ''b'' 0, Wait 2, Set_value ''a'' 0]"
proof -
  have "score_reel_groups (cycle_state 5 1 machine_cab) = [group_c, group_a, group_b]"
    "trace (cycle_state 5 1 machine_cab) = [Wait 5, Set_value ''a'' 0, Set_value ''b'' 0]"
    "sort_key name [group_c, group_a, group_b] = [group_a, group_b, group_c]"
    "name group_a = ''a''"
    by (simp_all add: cycle_state_def sample_defs)
  with game_starting_unguarded [of 2 "cycle_state 5 1 machine_cab"] show ?thesis
    by simp
qed

section \<open>Properties of the binding of players to groups\<close>

text \<open>
  Claim C3. Binding a new player: when some configured group carries the tag
  \<^verbatim>\<open>player<number>\<close>, the first such group is appended to the map and there is no
  fallback; when none does and the map has an entry for player index 0, that entry is
  appended (the player shares the first player's group). In both cases the new state is the
  old one with exactly one entry appended to the map: no command is sent to a device and no
  illumination changes.
\<close>

theorem map_new_score_reel_group_binding:
  "(items_tagged (''player'' @ str (number (player (game s)))) s = g # gs \<longrightarrow>
      map_new_score_reel_group s =
        Inr (s\<lparr>player_to_scorereel_map := player_to_scorereel_map s @ [g]\<rparr>)) \<and>
   (items_tagged (''player'' @ str (number (player (game s)))) s = [] \<and>
    player_to_scorereel_map s \<noteq> [] \<longrightarrow>
      map_new_score_reel_group s =
        Inr (s\<lparr>player_to_scorereel_map :=
                 player_to_scorereel_map s @ [player_to_scorereel_map s ! 0]\<rparr>))"
  by (auto simp: map_new_score_reel_group_def split: list.splits)

theorem map_new_score_reel_group_binding_witness:
  "items_tagged (''player'' @ str (number (player (game machine_cab)))) machine_cab = [group_a] \<and>
   map_new_score_reel_group machine_cab =
     Inr (machine_cab\<lparr>player_to_scorereel_map := [group_a]\<rparr>) \<and>
   items_tagged (''player'' @ str (number (player (game
       (machine_playing\<lparr>game := \<lparr>player_list = [player_1, player_2, player_3],
                                    player = player_3\<rparr>\<rparr>)))))
     (machine_playing\<lparr>game := \<lparr>player_list = [player_1, player_2, player_3],
                                  player = player_3\<rparr>\<rparr>) = [] \<and>
   player_to_scorereel_map
     (machine_playing\<lparr>game := \<lparr>player_list = [player_1, player_2, player_3],
                                  player = player_3\<rparr>\<rparr>) \<noteq> [] \<and>
   map_new_score_reel_group
     (machine_playing\<lparr>game := \<lparr>player_list = [player_1, player_2, player_3],
                                  player = player_3\<rparr>\<rparr>) =
     Inr (machine_playing\<lparr>game := \<lparr>player_list = [player_1, player_2, player_3],
                                       player = player_3\<rparr>,
                           player_to_scorereel_map := [group_a, group_a]\<rparr>)"
proof -
  let ?s = "machine_playing\<lparr>game := \<lparr>player_list = [player_1, player_2, player_3],
                                         player = player_3\<rparr>\<rparr>"
  have a: "items_tagged (''player'' @ str (number (player (game machine_cab)))) machine_cab
             = [group_a]"
    by (simp add: items_tagged_def sample_defs str.simps)
  have b: "items_tagged (''player'' @ str (number (player (game ?s)))) ?s = []"
    by (simp add: items_tagged_def sample_defs str.simps)
  have c: "player_to_scorereel_map ?s \<noteq> []"
    by (simp add: sample_defs)
  have m: "player_to_scorereel_map machine_cab = []" "player_to_scorereel_map ?s = [group_a]"
    by (simp_all add: sample_defs)
  from a b c map_new_score_reel_group_binding [of machine_cab group_a "[]"]
    map_new_score_reel_group_binding [of ?s]
  show ?thesis by (simp add: m)
qed

text \<open>
  Claim C6. The first player of a machine none of whose groups is tagged \<^verbatim>\<open>player1\<close>: the
  search by tag finds nothing, the fallback reads entry 0 of the empty map, and both the
  binding and the turn-started handler end in IndexError.
\<close>

theorem first_player_untagged_raises:
  "items_tagged ''player1'' machine_untagged = [] \<and>
   map_new_score_reel_group machine_untagged = Inl IndexError \<and>
   rotate_player machine_untagged = Inl IndexError"
  by (simp add: rotate_player_def map_new_score_reel_group_def items_tagged_def sample_defs str.simps)

lemma fold_unlight:
  "fold unlight xs s = s\<lparr>lit := lit s - name ` set xs\<rparr>"
proof (induction xs arbitrary: s)
  case Nil
  show ?case by simp
next
  case (Cons x xs)
  have "fold unlight (x # xs) s = fold unlight xs (unlight x s)" by simp
  also have "\<dots> = (unlight x s)\<lparr>lit := lit (unlight x s) - name ` set xs\<rparr>"
    by (rule Cons.IH)
  also have "\<dots> = s\<lparr>lit := lit s - name ` set (x # xs)\<rparr>"
  proof -
    have "lit s - {name x} - name ` set xs = lit s - insert (name x) (name ` set xs)" by blast
    then show ?thesis by (simp add: unlight_def)
  qed
  finally show ?case .
qed

lemma rotate_player_bound:
  assumes "(if length (player_to_scorereel_map s) < length (player_list (game s))
            then map_new_score_reel_group s else Inr s) = Inr (s\<lparr>player_to_scorereel_map := m\<rparr>)"
  shows "rotate_player s =
      (if index (player (game s)) < length m then
         Inr (s\<lparr>player_to_scorereel_map := m,
               active_scorereelgroup := Some (m ! index (player (game s))),
               trace := trace s @
                 (if assumed_value_int s (name (m ! index (player (game s)))) \<noteq> score (player (game s))
                  then [Set_value (name (m ! index (player (game s)))) (score (player (game s)))]
                  else []),
               lit := insert (name (m ! index (player (game s))))
                        (lit s - name ` set (score_reel_groups s))\<rparr>)
       else Inl IndexError)"
  unfolding rotate_player_def assms by (simp add: Let_def fold_unlight op_defs)

lemma rotate_player_total:
  assumes "length (player_to_scorereel_map s) < length (player_list (game s)) \<longrightarrow>
           items_tagged (''player'' @ str (number (player (game s)))) s \<noteq> [] \<or>
           player_to_scorereel_map s \<noteq> []"
    and "m = (if length (player_to_scorereel_map s) < length (player_list (game s))
              then player_to_scorereel_map s @
                   [case items_tagged (''player'' @ str (number (player (game s)))) s of
                      [] \<Rightarrow> player_to_scorereel_map s ! 0 | g # _ \<Rightarrow> g]
              else player_to_scorereel_map s)"
    and "index (player (game s)) < length m"
  shows "rotate_player s =
         Inr (s\<lparr>player_to_scorereel_map := m,
               active_scorereelgroup := Some (m ! index (player (game s))),
               trace := trace s @
                 (if assumed_value_int s (name (m ! index (player (game s)))) \<noteq> score (player (game s))
                  then [Set_value (name (m ! index (player (game s)))) (score (player (game s)))]
                  else []),
               lit := insert (name (m ! index (player (game s))))
                        (lit s - name ` set (score_reel_groups s))\<rparr>)"
proof -
  have "(if length (player_to_scorereel_map s) < length (player_list (game s))
         then map_new_score_reel_group s else Inr s) = Inr (s\<lparr>player_to_scorereel_map := m\<rparr>)"
  proof (cases "length (player_to_scorereel_map s) < length (player_list (game s))")
    case True
    with assms(1,2) show ?thesis
      by (auto simp: map_new_score_reel_group_def nth_Cons' split: list.splits)
  next
    case False
    with assms(2) show ?thesis by simp
  qed
  from rotate_player_bound [OF this] assms(3) show ?thesis by simp
qed

lemma map_new_success:
  assumes "items_tagged (''player'' @ str (number (player (game s)))) s \<noteq> [] \<or>
           player_to_scorereel_map s \<noteq> []"
  shows "\<exists>x. map_new_score_reel_group s =
           Inr (s\<lparr>player_to_scorereel_map := player_to_scorereel_map s @ [x]\<rparr>)"
  using assms by (auto simp: map_new_score_reel_group_def split: list.splits)

lemma rotate_player_first_turn:
  assumes "index (player (game s)) = length (player_to_scorereel_map s)"
    and "length (player_to_scorereel_map s) < length (player_list (game s))"
    and "items_tagged (''player'' @ str (number (player (game s)))) s \<noteq> [] \<or>
         player_to_scorereel_map s \<noteq> []"
  shows "\<exists>s'. rotate_player s = Inr s' \<and>
           length (player_to_scorereel_map s') = Suc (length (player_to_scorereel_map s)) \<and>
           score_reel_groups s' = score_reel_groups s"
proof -
  from map_new_success [OF assms(3)] obtain x where
    "map_new_score_reel_group s =
       Inr (s\<lparr>player_to_scorereel_map := player_to_scorereel_map s @ [x]\<rparr>)" ..
  with assms(2) have "(if length (player_to_scorereel_map s) < length (player_list (game s))
            then map_new_score_reel_group s else Inr s) =
          Inr (s\<lparr>player_to_scorereel_map := player_to_scorereel_map s @ [x]\<rparr>)"
    by simp
  from rotate_player_bound [OF this] assms(1) show ?thesis by simp
qed

lemma items_tagged_game: "items_tagged tag (s\<lparr>game := g\<rparr>) = items_tagged tag s"
  by (simp add: items_tagged_def)

lemma turns_length:
  assumes "first_turns_from (length (player_to_scorereel_map s)) gms"
    and "gms \<noteq> [] \<and> player_to_scorereel_map s = [] \<longrightarrow>
         items_tagged (''player'' @ str (number (player (hd gms)))) s \<noteq> []"
  shows "\<exists>s'. turns gms s = Inr s' \<and>
           length (player_to_scorereel_map s') = length (player_to_scorereel_map s) + length gms"
  using assms
proof (induction gms arbitrary: s)
  case Nil
  show ?case by simp
next
  case (Cons g gms)
  let ?s = "s\<lparr>game := g\<rparr>"
  from Cons.prems have
    "index (player (game ?s)) = length (player_to_scorereel_map ?s)"
    "length (player_to_scorereel_map ?s) < length (player_list (game ?s))"
    "items_tagged (''player'' @ str (number (player (game ?s)))) ?s \<noteq> [] \<or>
       player_to_scorereel_map ?s \<noteq> []"
    by (auto simp: items_tagged_game)
  from rotate_player_first_turn [OF this] obtain s' where
    r: "rotate_player ?s = Inr s'" and
    l: "length (player_to_scorereel_map s') = Suc (length (player_to_scorereel_map s))"
    by auto
  from l have ne: "player_to_scorereel_map s' \<noteq> []" by auto
  from Cons.prems(1) l have "first_turns_from (length (player_to_scorereel_map s')) gms"
    by simp
  from Cons.IH [OF this] ne obtain s'' where
    "turns gms s' = Inr s''"
    "length (player_to_scorereel_map s'') = length (player_to_scorereel_map s') + length gms"
    by auto
  with r l show ?case by simp
qed

text \<open>
  Claim C2, as stated, fails: the handler compares the length of the map with the length of
  the player list, not the current player's index with the map. After the first player's
  first turn a second player joins; a further turn of the first player, who has an entry,
  appends a second entry.
\<close>

theorem second_turn_appends:
  "map_sum id player_to_scorereel_map (turns [one_player] machine_cab) = Inr [group_a] \<and>
   index (player (two_players player_1)) = 0 \<and>
   map_sum id player_to_scorereel_map (turns [one_player, two_players player_1] machine_cab) =
     Inr [group_a, group_a]"
  by (simp add: rotate_player_def map_new_score_reel_group_def items_tagged_def two_players_def
        sample_defs op_defs str.simps Let_def)

text \<open>
  Claim C2, amended. A turn-started notification whose player index is within the map after
  binding is handled without an exception, and: it adds no entry and changes none when the
  map has at least as many entries as the player list has players; when the map is shorter
  than the player list, and a group is tagged for the current player's number or the map is
  not empty, it appends exactly one entry (the first group tagged for the current player's
  number, else the map's entry 0), also when the current player's index already has an entry,
  and changes no existing entry. Starting from an empty map, for players taking their first
  turns in index order 0..N-1, the player list having more than \<open>k\<close> players at the turn of
  the player of index \<open>k\<close>, on a machine with a group tagged for the first player's number,
  every turn is handled without an exception and the map's length is N afterwards.
\<close>

theorem rotate_player_binding:
  "(length (player_list (game s)) \<le> length (player_to_scorereel_map s) \<and>
    index (player (game s)) < length (player_to_scorereel_map s) \<longrightarrow>
      (\<exists>s'. rotate_player s = Inr s' \<and>
            player_to_scorereel_map s' = player_to_scorereel_map s)) \<and>
   (length (player_to_scorereel_map s) < length (player_list (game s)) \<and>
    (items_tagged (''player'' @ str (number (player (game s)))) s \<noteq> [] \<or>
     player_to_scorereel_map s \<noteq> []) \<and>
    index (player (game s)) \<le> length (player_to_scorereel_map s) \<longrightarrow>
      (\<exists>s'. rotate_player s = Inr s' \<and>
            player_to_scorereel_map s' =
              player_to_scorereel_map s @
                [case items_tagged (''player'' @ str (number (player (game s)))) s of
                   [] \<Rightarrow> player_to_scorereel_map s ! 0 | g # _ \<Rightarrow> g])) \<and>
   (player_to_scorereel_map t = [] \<and> first_turns_from 0 gms \<and>
    (gms \<noteq> [] \<longrightarrow> items_tagged (''player'' @ str (number (player (hd gms)))) t \<noteq> []) \<longrightarrow>
      (\<exists>t'. turns gms t = Inr t' \<and> length (player_to_scorereel_map t') = length gms))"
proof (intro conjI impI)
  assume a: "length (player_list (game s)) \<le> length (player_to_scorereel_map s) \<and>
    index (player (game s)) < length (player_to_scorereel_map s)"
  have "rotate_player s = Inr (s\<lparr>player_to_scorereel_map := player_to_scorereel_map s,
      active_scorereelgroup := Some (player_to_scorereel_map s ! index (player (game s))),
      trace := trace s @
        (if assumed_value_int s (name (player_to_scorereel_map s ! index (player (game s))))
              \<noteq> score (player (game s))
         then [Set_value (name (player_to_scorereel_map s ! index (player (game s))))
                 (score (player (game s)))]
         else []),
      lit := insert (name (player_to_scorereel_map s ! index (player (game s))))
               (lit s - name ` set (score_reel_groups s))\<rparr>)"
    using a by (intro rotate_player_total) simp_all
  then show "\<exists>s'. rotate_player s = Inr s' \<and>
            player_to_scorereel_map s' = player_to_scorereel_map s"
    by simp
next
  let ?m = "player_to_scorereel_map s @
                [case items_tagged (''player'' @ str (number (player (game s)))) s of
                   [] \<Rightarrow> player_to_scorereel_map s ! 0 | g # _ \<Rightarrow> g]"
  assume a: "length (player_to_scorereel_map s) < length (player_list (game s)) \<and>
    (items_tagged (''player'' @ str (number (player (game s)))) s \<noteq> [] \<or>
     player_to_scorereel_map s \<noteq> []) \<and>
    index (player (game s)) \<le> length (player_to_scorereel_map s)"
  have "rotate_player s = Inr (s\<lparr>player_to_scorereel_map := ?m,
      active_scorereelgroup := Some (?m ! index (player (game s))),
      trace := trace s @
        (if assumed_value_int s (name (?m ! index (player (game s)))) \<noteq> score (player (game s))
         then [Set_value (name (?m ! index (player (game s)))) (score (player (game s)))]
         else []),
      lit := insert (name (?m ! index (player (game s))))
               (lit s - name ` set (score_reel_groups s))\<rparr>)"
    using a by (intro rotate_player_total) simp_all
  then show "\<exists>s'. rotate_player s = Inr s' \<and> player_to_scorereel_map s' = ?m"
    by simp
next
  assume a: "player_to_scorereel_map t = [] \<and> first_turns_from 0 gms \<and>
    (gms \<noteq> [] \<longrightarrow> items_tagged (''player'' @ str (number (player (hd gms)))) t \<noteq> [])"
  then have "first_turns_from (length (player_to_scorereel_map t)) gms" by simp
  from turns_length [OF this] a
  show "\<exists>t'. turns gms t = Inr t' \<and> length (player_to_scorereel_map t') = length gms"
    by simp
qed

theorem rotate_player_binding_witness:
  "length (player_list (game machine_playing)) \<le> length (player_to_scorereel_map machine_playing) \<and>
   index (player (game machine_playing)) < length (player_to_scorereel_map machine_playing) \<and>
   (\<exists>s'. rotate_player machine_playing = Inr s' \<and> player_to_scorereel_map s' = [group_a]) \<and>
   length (player_to_scorereel_map (machine_playing\<lparr>game := two_players player_1\<rparr>)) <
     length (player_list (game (machine_playing\<lparr>game := two_players player_1\<rparr>))) \<and>
   items_tagged ''player1'' (machine_playing\<lparr>game := two_players player_1\<rparr>) \<noteq> [] \<and>
   index (player (game (machine_playing\<lparr>game := two_players player_1\<rparr>))) \<le>
     length (player_to_scorereel_map (machine_playing\<lparr>game := two_players player_1\<rparr>)) \<and>
   (\<exists>s'. rotate_player (machine_playing\<lparr>game := two_players player_1\<rparr>) = Inr s' \<and>
         player_to_scorereel_map s' = [group_a, group_a]) \<and>
   player_to_scorereel_map machine_cab = [] \<and>
   first_turns_from 0 [one_player, two_players player_2] \<and>
   items_tagged (''player'' @ str (number (player (hd [one_player, two_players player_2]))))
     machine_cab \<noteq> [] \<and>
   (\<exists>t'. turns [one_player, two_players player_2] machine_cab = Inr t' \<and>
         length (player_to_scorereel_map t') = 2)"
proof -
  let ?s = "machine_playing\<lparr>game := two_players player_1\<rparr>"
  have a: "length (player_list (game machine_playing)) \<le> length (player_to_scorereel_map machine_playing)"
    "index (player (game machine_playing)) < length (player_to_scorereel_map machine_playing)"
    by (simp_all add: sample_defs)
  have b: "length (player_to_scorereel_map ?s) < length (player_list (game ?s))"
    "index (player (game ?s)) \<le> length (player_to_scorereel_map ?s)"
    by (simp_all add: sample_defs)
  have c: "items_tagged ''player1'' ?s = [group_a]"
    "items_tagged (''player'' @ str (number (player (game ?s)))) ?s = [group_a]"
    by (simp_all add: items_tagged_def sample_defs str.simps)
  have m: "player_to_scorereel_map machine_playing = [group_a]"
    "player_to_scorereel_map ?s = [group_a]"
    by (simp_all add: sample_defs)
  have e: "player_to_scorereel_map machine_cab = []"
    by (simp add: sample_defs)
  have f: "first_turns_from 0 [one_player, two_players player_2]"
    by (simp add: sample_defs)
  have t: "items_tagged (''player'' @ str (number (player (hd [one_player, two_players player_2]))))
     machine_cab \<noteq> []"
    by (simp add: items_tagged_def sample_defs str.simps)
  from rotate_player_binding [of machine_playing] a
  have 1: "\<exists>s'. rotate_player machine_playing = Inr s' \<and> player_to_scorereel_map s' = [group_a]"
    by (simp add: m)
  from rotate_player_binding [of ?s] b c
  have 2: "\<exists>s'. rotate_player ?s = Inr s' \<and> player_to_scorereel_map s' = [group_a, group_a]"
    by (simp add: m)
  from rotate_player_binding [of _ machine_cab "[one_player, two_players player_2]"] e f t
  have "\<exists>t'. turns [one_player, two_players player_2] machine_cab = Inr t' \<and>
          length (player_to_scorereel_map t') = length [one_player, two_players player_2]"
    by blast
  then have 3: "\<exists>t'. turns [one_player, two_players player_2] machine_cab = Inr t' \<and>
          length (player_to_scorereel_map t') = 2"
    by (simp add: numeral_2_eq_2)
  from a b c(1) e f t 1 2 3 show ?thesis by simp
qed

text \<open>
  Claim C8. The first turn on a machine none of whose groups is tagged \<^verbatim>\<open>player1\<close>: no
  group is active or lit before the notification, the binding reads entry 0 of the empty map,
  and the handler ends in IndexError before it activates, synchronizes or lights a group.
  Where the binding is possible and the player's index is within the map, the handler does
  what the claim says, by \<open>rotate_player_total\<close>.
\<close>

theorem turn_started_untagged_not_lit:
  "score_reel_groups machine_untagged = [group_b, group_c] \<and>
   items_tagged ''player1'' machine_untagged = [] \<and>
   player_to_scorereel_map machine_untagged = [] \<and>
   player (game machine_untagged) = player_1 \<and>
   player_list (game machine_untagged) = [player_1] \<and>
   active_scorereelgroup machine_untagged = None \<and>
   lit machine_untagged = {} \<and>
   rotate_player machine_untagged = Inl IndexError"
  by (simp add: rotate_player_def map_new_score_reel_group_def items_tagged_def sample_defs
        str.simps)


section \<open>Properties of score changes\<close>

text \<open>
  Claim C7. A score-changed notification whose change is 0, or one that arrives while no
  score reel group is active, leaves the whole state as it was: \<open>add_value\<close> is not sent and
  nothing else changes.
\<close>

theorem score_change_noop:
  "change = 0 \<or> active_scorereelgroup s = None \<Longrightarrow> score_change val change s = s"
  by (auto simp: score_change_def split: option.splits)

theorem score_change_noop_witness:
  "((0::int) = 0 \<or> active_scorereelgroup machine_playing = None) \<and>
   score_change 120 0 machine_playing = machine_playing \<and>
   ((50::int) = 0 \<or> active_scorereelgroup machine_cab = None) \<and>
   score_change 50 50 machine_cab = machine_cab"
proof -
  have a: "(0::int) = 0 \<or> active_scorereelgroup machine_playing = None" by simp
  have b: "(50::int) = 0 \<or> active_scorereelgroup machine_cab = None"
    by (simp add: sample_defs)
  from a b score_change_noop [OF a, of 120] score_change_noop [OF b, of 50]
  show ?thesis by simp
qed

section \<open>Properties of the ball device\<close>

lemma ball_inv_steps:
  "ball_inv empty_trough"
  "ball_inv d \<Longrightarrow> ball_inv (switch_hit d)"
  "ball_inv d \<Longrightarrow> eject delay d = Some d' \<Longrightarrow> ball_inv d'"
  by (auto simp: ball_inv_def empty_trough_def switch_hit_def eject_def split: if_splits)

lemma length_filter_split:
  "length (filter (\<lambda>r. r \<le> t) xs) + length (filter (\<lambda>r. t < r) xs) = length (xs :: nat list)"
  by (induction xs) auto

lemma ball_inv_advance_time: "ball_inv d \<Longrightarrow> ball_inv (advance_time t d)"
  using length_filter_split [of t "eject_requests d"]
  by (simp add: ball_inv_def advance_time_def)

lemma ball_inv_le: "ball_inv d \<Longrightarrow> available_balls d \<le> balls d"
  by (simp add: ball_inv_def)

text \<open>
  Claim C9. A trough that starts empty and receives two switch hits holds 2 balls, both
  available. An eject leaves \<open>balls\<close> at 2 and brings \<open>available_balls\<close> to 1 at once; as long as
  the transit delay has not elapsed both stay so; once it has elapsed \<open>balls\<close> is 1 and
  \<open>available_balls\<close> is still 1. At each of these points \<open>available_balls\<close> is at most \<open>balls\<close>.
\<close>

theorem trough_eject_scenario:
  "switch_hit (switch_hit empty_trough) = \<lparr>balls = 2, available_balls = 2, eject_requests = []\<rparr> \<and>
   eject delay \<lparr>balls = 2, available_balls = 2, eject_requests = []\<rparr> =
     Some \<lparr>balls = 2, available_balls = 1, eject_requests = [delay]\<rparr> \<and>
   (t < delay \<longrightarrow>
      advance_time t \<lparr>balls = 2, available_balls = 1, eject_requests = [delay]\<rparr> =
        \<lparr>balls = 2, available_balls = 1, eject_requests = [delay - t]\<rparr>) \<and>
   (delay \<le> t \<longrightarrow>
      advance_time t \<lparr>balls = 2, available_balls = 1, eject_requests = [delay]\<rparr> =
        \<lparr>balls = 1, available_balls = 1, eject_requests = []\<rparr>)"
  by (simp add: switch_hit_def empty_trough_def eject_def advance_time_def)

theorem trough_eject_scenario_witness:
  "(3::nat) < 10 \<and> (10::nat) \<le> 30 \<and>
   switch_hit (switch_hit empty_trough) = \<lparr>balls = 2, available_balls = 2, eject_requests = []\<rparr> \<and>
   eject 10 \<lparr>balls = 2, available_balls = 2, eject_requests = []\<rparr> =
     Some \<lparr>balls = 2, available_balls = 1, eject_requests = [10]\<rparr> \<and>
   advance_time 3 \<lparr>balls = 2, available_balls = 1, eject_requests = [10]\<rparr> =
     \<lparr>balls = 2, available_balls = 1, eject_requests = [7]\<rparr> \<and>
   advance_time 30 \<lparr>balls = 2, available_balls = 1, eject_requests = [10]\<rparr> =
     \<lparr>balls = 1, available_balls = 1, eject_requests = []\<rparr>"
  using trough_eject_scenario [of 10 3] trough_eject_scenario [of 10 30] by simp

end
